theory Spec2Isabelle
  imports Complex_Main
begin

section \<open>Data model of the audio engine\<close>

text \<open>
  The development embeds \<^verbatim>\<open>src/js/audio/AudioManager.js\<close>. JavaScript numbers are
  modelled as real numbers: sums, products and quotients are exact. Objects of the host
  (the Web Audio graph, the timer queue, the random source) are fields of the same state
  record, so that every effect of a method is visible in the state it returns.

  Embedded are \<^verbatim>\<open>createBrownNoiseBuffer\<close>, \<^verbatim>\<open>startTypingLoop\<close>, \<^verbatim>\<open>stopTypingLoop\<close>,
  \<^verbatim>\<open>playKeyPress\<close>, \<^verbatim>\<open>playBuffer\<close>, \<^verbatim>\<open>playModalKeypress\<close>, \<^verbatim>\<open>triggerModalImpact\<close>,
  \<^verbatim>\<open>rand\<close>, \<^verbatim>\<open>startSyntheticTypingLoop\<close> with its closure and \<^verbatim>\<open>dispose\<close>. The gain node
  \<^verbatim>\<open>this.masterGain\<close>, to which every voice is connected, carries no state of its own
  here; \<^verbatim>\<open>init\<close>, \<^verbatim>\<open>loadSounds\<close>, \<^verbatim>\<open>setEnabled\<close> and \<^verbatim>\<open>toggle\<close> are not embedded.
\<close>

datatype error = TypeError | InvalidStateError | NotSupportedError

type_synonym AudioBuffer = "real list"

datatype context_state = Running | Closed

record AudioContext =
  currentTime :: real
  sampleRate :: real
  state :: context_state

text \<open>The keys of \<^verbatim>\<open>CONFIG.audio\<close> (the module \<^verbatim>\<open>config.js\<close> is a parameter).\<close>

record audio_config =
  masterVolume :: real
  loopVolume :: real
  keyPressVolume :: real
  fadeInDuration :: real
  fadeOutDuration :: real

text \<open>One mode of an event descriptor, and the descriptor handed to \<^verbatim>\<open>triggerModalImpact\<close>.\<close>

record mode =
  freq :: real
  Q :: real
  gain :: real

record impact_config =
  duration :: real
  modes :: "mode list"
  masterGain :: real

datatype automation =
    SetValueAtTime real real
  | LinearRampToValueAtTime real real
  | ExponentialRampToValueAtTime real real

text \<open>One bandpass filter with its gain node, as the \<^verbatim>\<open>forEach\<close> of a voice builds it.\<close>

record filter_stage =
  filter_frequency :: real
  filter_Q :: real
  modeGain :: real

text \<open>
  A synthetic voice: the exciter with its scheduled start and stop, the envelope written on
  the exciter gain, the gain of the summing node, the filter bank, and the descriptor the
  voice was built from.
\<close>

record voice =
  exciter_buffer :: "AudioBuffer option"
  exciter_start :: real
  exciter_stop :: real
  exciterGain :: "automation list"
  impactGain :: real
  stages :: "filter_stage list"
  event :: impact_config

text \<open>A one-shot sample voice, as \<^verbatim>\<open>playBuffer\<close> builds it.\<close>

record one_shot =
  source_buffer :: AudioBuffer
  playbackRate :: real
  pressGain :: real

datatype play_state = Unstarted | Playing | Stopped

record loop_source =
  loop_buffer :: AudioBuffer
  loop_flag :: bool
  loopGain :: "automation list"
  play :: play_state

text \<open>
  The fields of \<^verbatim>\<open>AudioManager\<close> (\<open>ctx\<close> stands for \<^verbatim>\<open>this.context\<close>), followed by the host:
  the stream read by \<^verbatim>\<open>Math.random\<close> with the number of values drawn so far, the pending
  timers as pairs of handle and delay in milliseconds with the last handle given out, the
  voices built so far, and the number of rejected \<^verbatim>\<open>close\<close> promises. Every timer of this
  class carries the same callback, \<^verbatim>\<open>scheduleNextKey\<close>.
\<close>

record AudioManager =
  ctx :: "AudioContext option"
  typingLoopSource :: "loop_source option"
  typingLoopBuffer :: "AudioBuffer option"
  keyPressBuffer :: "AudioBuffer option"
  brownNoiseBuffer :: "AudioBuffer option"
  enabled :: bool
  initialized :: bool
  typingLoopTimeout :: "nat option"
  random_src :: "nat \<Rightarrow> real"
  draws :: nat
  timers :: "(nat \<times> real) list"
  last_handle :: nat
  voices :: "voice list"
  one_shots :: "one_shot list"
  released :: "loop_source list"
  rejected_closes :: nat

text \<open>
  A method either returns, leaving a state, or throws, leaving the state reached at the
  throw: \<open>Inl (e, s)\<close> is the exception \<open>e\<close> raised in state \<open>s\<close>.
\<close>

type_synonym outcome = "error \<times> AudioManager + AudioManager"

section \<open>Host services\<close>

text \<open>\<^verbatim>\<open>Math.random()\<close>: the next value of the stream.\<close>

definition Math_random :: "AudioManager \<Rightarrow> real \<times> AudioManager" where
  "Math_random s = (random_src s (draws s), s\<lparr>draws := Suc (draws s)\<rparr>)"

text \<open>The host's contract for the random source: every value lies in \<open>[0, 1)\<close>.\<close>

definition unit_random :: "AudioManager \<Rightarrow> bool" where
  "unit_random s = (\<forall>n. 0 \<le> random_src s n \<and> random_src s n < 1)"

text \<open>
  \<^verbatim>\<open>context.createBuffer(1, length, sampleRate)\<close>: a zero-filled channel of the given
  length; the host refuses a length below one.
\<close>

definition createBuffer :: "int \<Rightarrow> error + AudioBuffer" where
  "createBuffer len = (if len < 1 then Inl NotSupportedError else Inr (replicate (nat len) 0))"

section \<open>The noise exciter\<close>

text \<open>
  \<^verbatim>\<open>rand(min, max)\<close>.
\<close>

definition rand :: "real \<Rightarrow> real \<Rightarrow> AudioManager \<Rightarrow> real \<times> AudioManager" where
  "rand lo hi s = (case Math_random s of (r, s1) \<Rightarrow> (lo + r * (hi - lo), s1))"

text \<open>
  The \<^verbatim>\<open>for\<close> loop of \<^verbatim>\<open>createBrownNoiseBuffer\<close> with its variables \<open>i\<close>, \<open>lastOut\<close> and
  \<open>data\<close>.
\<close>

function noise_loop ::
  "nat \<Rightarrow> nat \<Rightarrow> real \<Rightarrow> real list \<Rightarrow> AudioManager \<Rightarrow> real list \<times> AudioManager" where
  "noise_loop i len lastOut data s =
     (if i < len then
        (case Math_random s of (r, s1) \<Rightarrow>
           (let white = r * 2 - 1;
                lastOut1 = (lastOut + 0.02 * white) / 1.02
            in noise_loop (i + 1) len lastOut1 (data[i := lastOut1 * 3.5]) s1))
      else (data, s))"
  by pat_completeness auto
termination
  by (relation "measure (\<lambda>(i, len, lastOut, data, s). len - i)") auto

declare noise_loop.simps [simp del]

definition createBrownNoiseBuffer ::
  "AudioManager \<Rightarrow> error \<times> AudioManager + AudioBuffer \<times> AudioManager" where
  "createBrownNoiseBuffer s =
     (case ctx s of
        None \<Rightarrow> Inl (TypeError, s)
      | Some c \<Rightarrow>
          (let len = \<lfloor>sampleRate c * 0.05\<rfloor> in
           case createBuffer len of
             Inl e \<Rightarrow> Inl (e, s)
           | Inr data \<Rightarrow> Inr (noise_loop 0 (nat len) 0 data s)))"

text \<open>
  The integrator of the specification, written from its words: the state starts from 0
  and \<open>state (n + 1) = (state n + 0.02 * white n) / 1.02\<close>.
\<close>

fun integrator_state :: "(nat \<Rightarrow> real) \<Rightarrow> nat \<Rightarrow> real" where
  "integrator_state white 0 = 0"
| "integrator_state white (Suc n) = (integrator_state white n + 0.02 * white n) / 1.02"

text \<open>The white-noise value of the \<open>n\<close>-th iteration of a loop entered in state \<open>s\<close>.\<close>

definition white_noise :: "AudioManager \<Rightarrow> nat \<Rightarrow> real" where
  "white_noise s n = random_src s (draws s + n) * 2 - 1"


section \<open>The modal voice builder\<close>

text \<open>
  A row of a literal mode table of \<^verbatim>\<open>playModalKeypress\<close>: the base frequency, the two
  arguments of the \<^verbatim>\<open>rand\<close> call that scales it, the quality factor and the gain.
\<close>

type_synonym mode_row = "real \<times> real \<times> real \<times> real \<times> real"

definition click_modes :: "mode_row list" where
  "click_modes =
     [(1100, 0.97, 1.03, 8, 0.5),
      (2200, 0.97, 1.03, 5, 0.25),
      (3800, 0.97, 1.03, 3, 0.1)]"

definition impact_modes :: "mode_row list" where
  "impact_modes =
     [(160, 0.95, 1.05, 28, 0.7),
      (280, 0.95, 1.05, 22, 0.5),
      (520, 0.97, 1.03, 18, 1.0),
      (780, 0.97, 1.03, 14, 0.6),
      (1150, 0.97, 1.03, 10, 0.35),
      (1800, 0.97, 1.03, 6, 0.2),
      (2900, 0.97, 1.03, 4, 0.1)]"

definition upstroke_modes :: "mode_row list" where
  "upstroke_modes =
     [(1250, 0.97, 1.03, 7, 0.3),
      (2000, 0.97, 1.03, 5, 0.15),
      (200, 0.95, 1.05, 15, 0.2)]"

text \<open>
  The array literal \<^verbatim>\<open>modes: [{ freq: base * this.rand(lo, hi), Q, gain }, ...]\<close>: its
  elements are evaluated from left to right, one \<^verbatim>\<open>rand\<close> call each.
\<close>

fun make_modes :: "mode_row list \<Rightarrow> AudioManager \<Rightarrow> mode list \<times> AudioManager" where
  "make_modes [] s = ([], s)"
| "make_modes ((base, lo, hi, q, g) # rows) s =
     (case rand lo hi s of (x, s1) \<Rightarrow>
        (case make_modes rows s1 of (ms, s2) \<Rightarrow>
           (\<lparr>freq = base * x, Q = q, gain = g\<rparr> # ms, s2)))"

text \<open>The \<^verbatim>\<open>config.modes.forEach\<close> of \<^verbatim>\<open>triggerModalImpact\<close>.\<close>

fun build_stages :: "mode list \<Rightarrow> AudioManager \<Rightarrow> filter_stage list \<times> AudioManager" where
  "build_stages [] s = ([], s)"
| "build_stages (m # ms) s =
     (case rand 0.85 1.15 s of (x, s1) \<Rightarrow>
        (case build_stages ms s1 of (fs, s2) \<Rightarrow>
           (\<lparr>filter_frequency = freq m, filter_Q = Q m, modeGain = gain m * x\<rparr> # fs, s2)))"

text \<open>
  \<^verbatim>\<open>triggerModalImpact(startTime, config)\<close>. Reading \<^verbatim>\<open>ctx.createBufferSource\<close> on a
  missing context throws before anything is built.
\<close>

definition triggerModalImpact ::
  "audio_config \<Rightarrow> real \<Rightarrow> impact_config \<Rightarrow> AudioManager \<Rightarrow> outcome" where
  "triggerModalImpact cfg startTime config s =
     (case ctx s of
        None \<Rightarrow> Inl (TypeError, s)
      | Some c \<Rightarrow>
          (case build_stages (modes config) s of (fs, s1) \<Rightarrow>
             Inr (s1\<lparr>voices := voices s1 @
               [\<lparr>exciter_buffer = brownNoiseBuffer s,
                 exciter_start = startTime,
                 exciter_stop = startTime + duration config + 0.15,
                 exciterGain =
                   [SetValueAtTime 0.001 startTime,
                    LinearRampToValueAtTime 1.0 (startTime + 0.0001),
                    ExponentialRampToValueAtTime 0.001 (startTime + duration config)],
                 impactGain = masterGain config * keyPressVolume cfg,
                 stages = fs,
                 event = config\<rparr>]\<rparr>)))"

text \<open>\<^verbatim>\<open>playModalKeypress()\<close>: the three events of one keypress.\<close>

definition playModalKeypress :: "audio_config \<Rightarrow> AudioManager \<Rightarrow> outcome" where
  "playModalKeypress cfg s =
     (case ctx s of
        None \<Rightarrow> Inr s
      | Some c \<Rightarrow>
          if brownNoiseBuffer s = None then Inr s
          else
            (let t = currentTime c in
             case make_modes click_modes s of (m1, s1) \<Rightarrow>
             (case triggerModalImpact cfg t
                     \<lparr>duration = 0.002, modes = m1, masterGain = 0.4\<rparr> s1 of
                Inl x \<Rightarrow> Inl x
              | Inr s2 \<Rightarrow>
             (case make_modes impact_modes s2 of (m2, s3) \<Rightarrow>
             (case triggerModalImpact cfg (t + 0.0015)
                     \<lparr>duration = 0.004, modes = m2, masterGain = 0.8\<rparr> s3 of
                Inl x \<Rightarrow> Inl x
              | Inr s4 \<Rightarrow>
             (case make_modes upstroke_modes s4 of (m3, s5) \<Rightarrow>
                triggerModalImpact cfg (t + 0.055)
                  \<lparr>duration = 0.0015, modes = m3, masterGain = 0.25\<rparr> s5))))))"

section \<open>Playing a key press\<close>

text \<open>\<^verbatim>\<open>playBuffer(buffer)\<close>.\<close>

definition playBuffer :: "audio_config \<Rightarrow> AudioBuffer \<Rightarrow> AudioManager \<Rightarrow> outcome" where
  "playBuffer cfg buffer s =
     (case ctx s of
        None \<Rightarrow> Inl (TypeError, s)
      | Some c \<Rightarrow>
          (case Math_random s of (r, s1) \<Rightarrow>
             Inr (s1\<lparr>one_shots := one_shots s1 @
               [\<lparr>source_buffer = buffer,
                 playbackRate = 0.95 + r * 0.1,
                 pressGain = keyPressVolume cfg\<rparr>]\<rparr>)))"

text \<open>\<^verbatim>\<open>playKeyPress()\<close>.\<close>

definition playKeyPress :: "audio_config \<Rightarrow> AudioManager \<Rightarrow> outcome" where
  "playKeyPress cfg s =
     (if \<not> enabled s \<or> \<not> initialized s then Inr s
      else
        (case keyPressBuffer s of
           Some b \<Rightarrow> playBuffer cfg b s
         | None \<Rightarrow> playModalKeypress cfg s))"

section \<open>The typing loop\<close>

text \<open>
  \<^verbatim>\<open>setTimeout\<close> hands out a fresh positive handle and queues the timer; \<^verbatim>\<open>clearTimeout\<close>
  removes the timer with the given handle, if it is still pending.
\<close>

definition setTimeout :: "real \<Rightarrow> AudioManager \<Rightarrow> nat \<times> AudioManager" where
  "setTimeout delay s =
     (let h = Suc (last_handle s)
      in (h, s\<lparr>timers := timers s @ [(h, delay)], last_handle := h\<rparr>))"

definition clearTimeout :: "nat \<Rightarrow> AudioManager \<Rightarrow> AudioManager" where
  "clearTimeout h s = s\<lparr>timers := filter (\<lambda>p. fst p \<noteq> h) (timers s)\<rparr>"

text \<open>The closure \<^verbatim>\<open>scheduleNextKey\<close> of \<^verbatim>\<open>startSyntheticTypingLoop\<close>.\<close>

definition scheduleNextKey :: "audio_config \<Rightarrow> AudioManager \<Rightarrow> outcome" where
  "scheduleNextKey cfg s =
     (if \<not> enabled s then Inr (s\<lparr>typingLoopTimeout := None\<rparr>)
      else
        (case playModalKeypress cfg s of
           Inl x \<Rightarrow> Inl x
         | Inr s1 \<Rightarrow>
             (case Math_random s1 of (r, s2) \<Rightarrow>
                (let nextDelay = 100 + r * 150 in
                 case setTimeout nextDelay s2 of (h, s3) \<Rightarrow>
                   Inr (s3\<lparr>typingLoopTimeout := Some h\<rparr>)))))"

definition startSyntheticTypingLoop :: "AudioManager \<Rightarrow> AudioManager" where
  "startSyntheticTypingLoop s =
     (case setTimeout 500 s of (h, s1) \<Rightarrow> s1\<lparr>typingLoopTimeout := Some h\<rparr>)"

text \<open>\<^verbatim>\<open>startTypingLoop()\<close>.\<close>

definition startTypingLoop :: "audio_config \<Rightarrow> AudioManager \<Rightarrow> outcome" where
  "startTypingLoop cfg s =
     (if \<not> enabled s \<or> \<not> initialized s then Inr s
      else
        (case typingLoopBuffer s of
           Some b \<Rightarrow>
             (case ctx s of
                None \<Rightarrow> Inl (TypeError, s)
              | Some c \<Rightarrow>
                  Inr (s\<lparr>typingLoopSource := Some
                    \<lparr>loop_buffer = b, loop_flag = True,
                      loopGain =
                        [SetValueAtTime 0 (currentTime c),
                         LinearRampToValueAtTime (loopVolume cfg)
                           (currentTime c + fadeInDuration cfg / 1000)],
                      play = Playing\<rparr>\<rparr>))
         | None \<Rightarrow> Inr (startSyntheticTypingLoop s)))"

text \<open>
  The body of the \<^verbatim>\<open>try\<close> block of \<^verbatim>\<open>stopTypingLoop\<close>: \<^verbatim>\<open>stop()\<close> throws on a source
  that was never started; otherwise the source is stopped and disconnected.
\<close>

definition stop_and_disconnect :: "loop_source \<Rightarrow> AudioManager \<Rightarrow> outcome" where
  "stop_and_disconnect n s =
     (if play n = Unstarted then Inl (InvalidStateError, s)
      else Inr (s\<lparr>released := released s @ [n\<lparr>play := Stopped\<rparr>]\<rparr>))"

text \<open>
  \<^verbatim>\<open>stopTypingLoop()\<close>. The \<^verbatim>\<open>catch\<close> swallows the exception of the \<^verbatim>\<open>try\<close> block; a
  handle is tested for truthiness, so the handle 0 would not be cleared.
\<close>

definition stopTypingLoop :: "AudioManager \<Rightarrow> outcome" where
  "stopTypingLoop s =
     (let s1 =
        (case typingLoopSource s of
           None \<Rightarrow> s
         | Some n \<Rightarrow>
             (case stop_and_disconnect n s of
                Inl (e, s') \<Rightarrow> s'
              | Inr s' \<Rightarrow> s')\<lparr>typingLoopSource := None\<rparr>)
      in
        (case typingLoopTimeout s1 of
           None \<Rightarrow> Inr s1
         | Some h \<Rightarrow>
             if h = 0 then Inr s1
             else Inr ((clearTimeout h s1)\<lparr>typingLoopTimeout := None\<rparr>)))"

text \<open>
  \<^verbatim>\<open>dispose()\<close>. Closing a context that is already closed rejects the promise that
  \<^verbatim>\<open>close\<close> returns; nothing is thrown at the caller.
\<close>

definition dispose :: "AudioManager \<Rightarrow> outcome" where
  "dispose s =
     (case stopTypingLoop s of
        Inl x \<Rightarrow> Inl x
      | Inr s1 \<Rightarrow>
          (case ctx s1 of
             None \<Rightarrow> Inr s1
           | Some c \<Rightarrow>
               if state c = Closed then Inr (s1\<lparr>rejected_closes := Suc (rejected_closes s1)\<rparr>)
               else Inr (s1\<lparr>ctx := Some (c\<lparr>state := Closed\<rparr>)\<rparr>)))"

section \<open>The host's event loop\<close>

text \<open>
  The host fires a pending timer: the timer leaves the queue and its callback runs. A
  handle that is not pending cannot fire.
\<close>

definition fire :: "audio_config \<Rightarrow> nat \<Rightarrow> AudioManager \<Rightarrow> outcome" where
  "fire cfg h s =
     (if h \<in> set (map fst (timers s))
      then scheduleNextKey cfg (s\<lparr>timers := filter (\<lambda>p. fst p \<noteq> h) (timers s)\<rparr>)
      else Inr s)"

text \<open>The state an outcome leaves behind, whether the method returned or threw.\<close>

definition state_after :: "outcome \<Rightarrow> AudioManager" where
  "state_after r = (case r of Inl (e, s) \<Rightarrow> s | Inr s \<Rightarrow> s)"

datatype operation = Start | Stop | Fire nat

fun step :: "audio_config \<Rightarrow> operation \<Rightarrow> AudioManager \<Rightarrow> AudioManager" where
  "step cfg Start s = state_after (startTypingLoop cfg s)"
| "step cfg Stop s = state_after (stopTypingLoop s)"
| "step cfg (Fire h) s = state_after (fire cfg h s)"

fun run :: "audio_config \<Rightarrow> operation list \<Rightarrow> AudioManager \<Rightarrow> AudioManager" where
  "run cfg [] s = s"
| "run cfg (x # xs) s = run cfg xs (step cfg x s)"

text \<open>
  A sequence of operations in which \<^verbatim>\<open>startTypingLoop\<close> is only called while the loop
  is stopped, that is while no handle is stored.
\<close>

fun start_when_stopped :: "audio_config \<Rightarrow> operation list \<Rightarrow> AudioManager \<Rightarrow> bool" where
  "start_when_stopped cfg [] s = True"
| "start_when_stopped cfg (x # xs) s =
     ((x = Start \<longrightarrow> typingLoopTimeout s = None)
      \<and> start_when_stopped cfg xs (step cfg x s))"

text \<open>
  The stored handle and the timer queue agree: the queue holds the timer of the stored
  handle and nothing else, and handles are positive.
\<close>

definition loop_inv :: "AudioManager \<Rightarrow> bool" where
  "loop_inv s =
     (map fst (timers s) = (case typingLoopTimeout s of None \<Rightarrow> [] | Some h \<Rightarrow> [h])
      \<and> 0 \<notin> set (map fst (timers s)))"

section \<open>Closed forms and concrete states\<close>

text \<open>
  The modes and filter stages that \<open>make_modes\<close> and \<open>build_stages\<close> produce, as functions
  of the random stream \<open>r\<close> read from position \<open>k\<close>.
\<close>

fun modes_at :: "mode_row list \<Rightarrow> (nat \<Rightarrow> real) \<Rightarrow> nat \<Rightarrow> mode list" where
  "modes_at [] r k = []"
| "modes_at ((base, lo, hi, q, g) # rows) r k =
     \<lparr>freq = base * (lo + r k * (hi - lo)), Q = q, gain = g\<rparr> # modes_at rows r (Suc k)"

fun stages_at :: "mode list \<Rightarrow> (nat \<Rightarrow> real) \<Rightarrow> nat \<Rightarrow> filter_stage list" where
  "stages_at [] r k = []"
| "stages_at (m # ms) r k =
     \<lparr>filter_frequency = freq m, filter_Q = Q m,
      modeGain = gain m * (0.85 + r k * (1.15 - 0.85))\<rparr> # stages_at ms r (Suc k)"

text \<open>
  The voice of an event: its modes read the stream from position \<open>k\<close>, its stage gains
  from the position after the last mode.
\<close>

definition voice_at ::
  "audio_config \<Rightarrow> AudioManager \<Rightarrow> real \<Rightarrow> real \<Rightarrow> real \<Rightarrow> mode_row list \<Rightarrow> nat \<Rightarrow> voice" where
  "voice_at cfg s startTime dur mg rows k =
     \<lparr>exciter_buffer = brownNoiseBuffer s,
      exciter_start = startTime,
      exciter_stop = startTime + dur + 0.15,
      exciterGain =
        [SetValueAtTime 0.001 startTime,
         LinearRampToValueAtTime 1.0 (startTime + 0.0001),
         ExponentialRampToValueAtTime 0.001 (startTime + dur)],
      impactGain = mg * keyPressVolume cfg,
      stages = stages_at (modes_at rows (random_src s) k) (random_src s) (k + length rows),
      event = \<lparr>duration = dur, modes = modes_at rows (random_src s) k, masterGain = mg\<rparr>\<rparr>"

text \<open>
  The bounds of the specification: a frequency no further than the fraction \<open>tol\<close> from
  its base, a quality factor as written, a gain no further than 15 percent from its base.
\<close>

definition in_tolerance :: "real \<Rightarrow> real \<Rightarrow> real \<Rightarrow> bool" where
  "in_tolerance tol base x = (base * (1 - tol) \<le> x \<and> x \<le> base * (1 + tol))"

definition stage_meets :: "real \<times> real \<times> real \<times> real \<Rightarrow> filter_stage \<Rightarrow> bool" where
  "stage_meets row st =
     (case row of (base, tol, q, g) \<Rightarrow>
        in_tolerance tol base (filter_frequency st) \<and> filter_Q st = q
        \<and> in_tolerance 0.15 g (modeGain st))"

text \<open>The mode tables of the specification with the tolerance of each frequency.\<close>

definition click_spec :: "(real \<times> real \<times> real \<times> real) list" where
  "click_spec = [(1100, 0.03, 8, 0.5), (2200, 0.03, 5, 0.25), (3800, 0.03, 3, 0.1)]"

definition impact_spec :: "(real \<times> real \<times> real \<times> real) list" where
  "impact_spec =
     [(160, 0.05, 28, 0.7), (280, 0.05, 22, 0.5), (520, 0.03, 18, 1.0), (780, 0.03, 14, 0.6),
      (1150, 0.03, 10, 0.35), (1800, 0.03, 6, 0.2), (2900, 0.03, 4, 0.1)]"

definition upstroke_spec :: "(real \<times> real \<times> real \<times> real) list" where
  "upstroke_spec = [(1250, 0.03, 7, 0.3), (2000, 0.03, 5, 0.15), (200, 0.05, 15, 0.2)]"

text \<open>
  An engine as \<^verbatim>\<open>init\<close> leaves it when no audio file is found, at a sample rate of
  44100 Hz, with three samples standing in for its noise buffer and a random source that
  cycles through 0, 1/4, 1/2 and 3/4; and a configuration.
\<close>

definition studio :: AudioManager where
  "studio =
     \<lparr>ctx = Some \<lparr>currentTime = 2, sampleRate = 44100, state = Running\<rparr>,
      typingLoopSource = None, typingLoopBuffer = None, keyPressBuffer = None,
      brownNoiseBuffer = Some [0.01, - 0.02, 0.03], enabled = True, initialized = True,
      typingLoopTimeout = None,
      random_src = (\<lambda>n. real (n mod 4) / 4), draws = 0,
      timers = [], last_handle = 0, voices = [], one_shots = [], released = [],
      rejected_closes = 0\<rparr>"

definition settings :: audio_config where
  "settings =
     \<lparr>masterVolume = 0.5, loopVolume = 0.3, keyPressVolume = 0.5,
      fadeInDuration = 500, fadeOutDuration = 300\<rparr>"

text \<open>
  A disabled engine with one timer still pending, and an engine whose key press sample
  was loaded.
\<close>

definition paused :: AudioManager where
  "paused = studio\<lparr>enabled := False, typingLoopTimeout := Some 1, timers := [(1, 500)],
                    last_handle := 1\<rparr>"

definition sampled :: AudioManager where
  "sampled = studio\<lparr>keyPressBuffer := Some [0.2, - 0.1], draws := 3\<rparr>"

text \<open>An engine that holds a loop source on which \<^verbatim>\<open>start\<close> was never called.\<close>

definition stale :: AudioManager where
  "stale =
     studio\<lparr>typingLoopSource := Some
       \<lparr>loop_buffer = [0.5], loop_flag = True, loopGain = [], play = Unstarted\<rparr>\<rparr>"

section \<open>The noise buffer\<close>

text \<open>
  The invariant of the loop: entered at index \<open>i\<close> with \<open>lastOut\<close> the integrator state
  after \<open>i\<close> updates, it keeps the samples below \<open>i\<close> and writes the later ones.
\<close>

lemma noise_loop_inv:
  assumes "noise_loop i len lastOut data s = (data', s')"
    and "i \<le> len" and "length data = len"
    and "draws s = d0 + i"
    and "lastOut = integrator_state (\<lambda>n. random_src s (d0 + n) * 2 - 1) i"
  shows "length data' = len \<and> s' = s\<lparr>draws := d0 + len\<rparr>
       \<and> (\<forall>j<i. data' ! j = data ! j)
       \<and> (\<forall>j. i \<le> j \<and> j < len \<longrightarrow>
             data' ! j = integrator_state (\<lambda>n. random_src s (d0 + n) * 2 - 1) (Suc j) * 3.5)"
  using assms
proof (induction i len lastOut data s arbitrary: data' s' rule: noise_loop.induct)
  case (1 i len lastOut data s)
  show ?case
  proof (cases "i < len")
    case False
    with "1.prems" show ?thesis
      by (simp add: noise_loop.simps)
  next
    case True
    then have lt: "i < len" .
    let ?w = "\<lambda>n. random_src s (d0 + n) * 2 - 1"
    define s1 where "s1 = s\<lparr>draws := Suc (draws s)\<rparr>"
    define l1 where "l1 = (lastOut + 0.02 * (random_src s (draws s) * 2 - 1)) / 1.02"
    have mr: "Math_random s = (random_src s (draws s), s1)"
      by (simp add: Math_random_def s1_def)
    have "noise_loop i len lastOut data s = noise_loop (i + 1) len l1 (data[i := l1 * 3.5]) s1"
      by (subst noise_loop.simps) (simp only: lt if_True mr Let_def prod.case l1_def)
    then have run: "noise_loop (i + 1) len l1 (data[i := l1 * 3.5]) s1 = (data', s')"
      using "1.prems"(1) by simp
    have l1: "l1 = integrator_state ?w (Suc i)"
      unfolding l1_def using "1.prems"(4,5) by (simp only: integrator_state.simps)
    have src: "random_src s1 = random_src s" and dr: "draws s1 = d0 + (i + 1)"
      using "1.prems"(4) by (simp_all add: s1_def)
    have l1': "l1 = integrator_state (\<lambda>n. random_src s1 (d0 + n) * 2 - 1) (i + 1)"
      using l1 by (simp only: src Suc_eq_plus1)
    have le: "i + 1 \<le> len" using lt by simp
    have len1: "length (data[i := l1 * 3.5]) = len" using "1.prems"(3) by simp
    note IH0 = "1.IH" [OF lt mr [symmetric] refl l1_def run le len1 dr l1']
    have IH: "length data' = len \<and> s' = s1\<lparr>draws := d0 + len\<rparr>
       \<and> (\<forall>j<i + 1. data' ! j = data[i := l1 * 3.5] ! j)
       \<and> (\<forall>j. i + 1 \<le> j \<and> j < len \<longrightarrow> data' ! j = integrator_state ?w (Suc j) * 3.5)"
      using IH0 unfolding src .
    show ?thesis
    proof (intro conjI allI impI)
      show "length data' = len" using IH by simp
      show "s' = s\<lparr>draws := d0 + len\<rparr>" using IH by (simp add: s1_def)
    next
      fix j assume "j < i"
      then show "data' ! j = data ! j" using IH by simp
    next
      fix j assume j: "i \<le> j \<and> j < len"
      show "data' ! j = integrator_state ?w (Suc j) * 3.5"
      proof (cases "j = i")
        case True
        then have "data' ! j = data[i := l1 * 3.5] ! i" using IH by simp
        also have "\<dots> = l1 * 3.5" using lt "1.prems"(3) by simp
        finally show ?thesis using l1 True by (simp only:)
      next
        case False
        then show ?thesis using IH j by simp
      qed
    qed
  qed
qed


lemma integrator_state_bounded:
  assumes "\<forall>n. \<bar>w n\<bar> \<le> 1"
  shows "\<bar>integrator_state w n\<bar> \<le> 1"
proof (induction n)
  case 0
  show ?case by simp
next
  case (Suc n)
  have w: "- 1 \<le> w n \<and> w n \<le> 1"
    using assms [rule_format, of n] by (simp add: abs_le_iff)
  have x: "- 1 \<le> integrator_state w n \<and> integrator_state w n \<le> 1"
    using Suc.IH by (simp add: abs_le_iff)
  have "- 1 \<le> (integrator_state w n + 0.02 * w n) / 1.02
      \<and> (integrator_state w n + 0.02 * w n) / 1.02 \<le> 1"
    using w x by (simp add: field_simps)
  then show ?case by (simp only: integrator_state.simps abs_le_iff) simp
qed

lemma white_noise_range:
  assumes "unit_random s"
  shows "-1 \<le> white_noise s n \<and> white_noise s n < 1"
proof -
  have "0 \<le> random_src s (draws s + n) \<and> random_src s (draws s + n) < 1"
    using assms by (simp add: unit_random_def)
  then show ?thesis by (simp add: white_noise_def)
qed

lemma createBrownNoiseBuffer_run:
  assumes c: "ctx s = Some c" and len: "1 \<le> \<lfloor>sampleRate c * 0.05\<rfloor>"
  shows "\<exists>buf. createBrownNoiseBuffer s
            = Inr (buf, s\<lparr>draws := draws s + nat \<lfloor>sampleRate c * 0.05\<rfloor>\<rparr>)
         \<and> length buf = nat \<lfloor>sampleRate c * 0.05\<rfloor>
         \<and> (\<forall>i<length buf. buf ! i = integrator_state (white_noise s) (Suc i) * 3.5)"
proof -
  define n where "n = nat \<lfloor>sampleRate c * 0.05\<rfloor>"
  obtain buf s' where run: "noise_loop 0 n 0 (replicate n 0) s = (buf, s')"
    by (cases "noise_loop 0 n 0 (replicate n 0) s") blast
  have w: "white_noise s = (\<lambda>k. random_src s (draws s + k) * 2 - 1)"
    by (rule ext) (simp add: white_noise_def)
  have inv: "length buf = n \<and> s' = s\<lparr>draws := draws s + n\<rparr>
      \<and> (\<forall>j<0. buf ! j = replicate n 0 ! j)
      \<and> (\<forall>j. 0 \<le> j \<and> j < n \<longrightarrow> buf ! j = integrator_state (white_noise s) (Suc j) * 3.5)"
    unfolding w by (rule noise_loop_inv [OF run]) simp_all
  have "createBrownNoiseBuffer s = Inr (noise_loop 0 n 0 (replicate n 0) s)"
    using c len by (simp add: createBrownNoiseBuffer_def createBuffer_def Let_def n_def)
  then show ?thesis using run inv by (simp add: n_def)
qed

lemma unit_random_studio: "unit_random studio"
proof -
  have "real (n mod 4) < 4" for n :: nat
    by (metis mod_less_divisor of_nat_less_iff of_nat_numeral zero_less_numeral)
  then show ?thesis by (simp add: unit_random_def studio_def)
qed


lemma createBrownNoiseBuffer_InrD:
  assumes "createBrownNoiseBuffer s = Inr r"
  shows "\<exists>c. ctx s = Some c \<and> 1 \<le> \<lfloor>sampleRate c * 0.05\<rfloor>"
  using assms
  by (auto simp: createBrownNoiseBuffer_def createBuffer_def Let_def
           split: option.splits if_splits)

text \<open>
  C2 (amended). On a context whose sample rate gives a length of at least one,
  \<open>createBrownNoiseBuffer\<close> returns a buffer of length \<open>floor (sampleRate * 0.05)\<close>. Sample \<open>i\<close>
  is 3.5 times the integrator state after \<open>i + 1\<close> updates, where the state starts from 0,
  each update is \<open>(state + 0.02 * white) / 1.02\<close>, and each white value is \<open>2 * u - 1\<close> for
  the next value \<open>u\<close> of a random source in \<open>[0, 1)\<close>, so lies in \<open>[-1, 1]\<close>.
\<close>

theorem createBrownNoiseBuffer_samples:
  assumes "ctx s = Some c" and "1 \<le> \<lfloor>sampleRate c * 0.05\<rfloor>" and "unit_random s"
  shows "\<exists>buf s'. createBrownNoiseBuffer s = Inr (buf, s')
           \<and> length buf = nat \<lfloor>sampleRate c * 0.05\<rfloor>
           \<and> (\<forall>i<length buf. buf ! i = integrator_state (white_noise s) (Suc i) * 3.5)
           \<and> (\<forall>n. - 1 \<le> white_noise s n \<and> white_noise s n \<le> 1)"
proof -
  obtain buf where
    "createBrownNoiseBuffer s = Inr (buf, s\<lparr>draws := draws s + nat \<lfloor>sampleRate c * 0.05\<rfloor>\<rparr>)"
    "length buf = nat \<lfloor>sampleRate c * 0.05\<rfloor>"
    "\<forall>i<length buf. buf ! i = integrator_state (white_noise s) (Suc i) * 3.5"
    using createBrownNoiseBuffer_run [OF assms(1,2)] by blast
  moreover have "\<forall>n. - 1 \<le> white_noise s n \<and> white_noise s n \<le> 1"
  proof
    fix n
    have "- 1 \<le> white_noise s n" "white_noise s n < 1"
      using white_noise_range [OF assms(3), of n] by simp_all
    then show "- 1 \<le> white_noise s n \<and> white_noise s n \<le> 1" by simp
  qed
  ultimately show ?thesis by blast
qed

lemma studio_ctx:
  "ctx studio = Some \<lparr>currentTime = 2, sampleRate = 44100, state = Running\<rparr>"
  by (simp add: studio_def)

theorem createBrownNoiseBuffer_samples_witness:
  "\<exists>buf s'. createBrownNoiseBuffer studio = Inr (buf, s')
      \<and> length buf = 2205 \<and> buf ! 0 = - (7 / 102)"
proof -
  have len: "1 \<le> \<lfloor>sampleRate \<lparr>currentTime = 2, sampleRate = 44100, state = Running\<rparr> * 0.05\<rfloor>"
    by simp
  obtain buf s' where run: "createBrownNoiseBuffer studio = Inr (buf, s')"
    and n: "length buf = 2205"
    and smp: "\<forall>i<length buf. buf ! i = integrator_state (white_noise studio) (Suc i) * 3.5"
    using createBrownNoiseBuffer_samples [OF studio_ctx len unit_random_studio] by auto
  have "buf ! 0 = integrator_state (white_noise studio) (Suc 0) * 3.5"
    using smp n by simp
  also have "\<dots> = - (7 / 102)"
    by (simp add: white_noise_def studio_def)
  finally show ?thesis using run n by blast
qed

text \<open>
  C2 as stated fails at index 0: read literally, sample 0 would be 3.5 times the initial
  state 0. The loop updates the state before it stores the sample, so with a first random
  value 0 (white value -1) sample 0 is \<open>- 7 / 102\<close>.
\<close>

theorem createBrownNoiseBuffer_first_sample:
  "case createBrownNoiseBuffer studio of
     Inl e \<Rightarrow> False
   | Inr (buf, s') \<Rightarrow>
       length buf = 2205 \<and> buf ! 0 = - (7 / 102)
       \<and> integrator_state (white_noise studio) 0 * 3.5 = 0
       \<and> buf ! 0 \<noteq> integrator_state (white_noise studio) 0 * 3.5"
proof -
  have len: "1 \<le> \<lfloor>sampleRate \<lparr>currentTime = 2, sampleRate = 44100, state = Running\<rparr> * 0.05\<rfloor>"
    by simp
  obtain buf s' where run: "createBrownNoiseBuffer studio = Inr (buf, s')"
    and n: "length buf = 2205"
    and smp: "\<forall>i<length buf. buf ! i = integrator_state (white_noise studio) (Suc i) * 3.5"
    using createBrownNoiseBuffer_run [OF studio_ctx len] by auto
  have "buf ! 0 = integrator_state (white_noise studio) (Suc 0) * 3.5"
    using smp n by simp
  also have "\<dots> = - (7 / 102)"
    by (simp add: white_noise_def studio_def)
  finally have b0: "buf ! 0 = - (7 / 102)" .
  have z: "integrator_state (white_noise studio) 0 * 3.5 = 0" by simp
  have ne: "buf ! 0 \<noteq> integrator_state (white_noise studio) 0 * 3.5"
    unfolding b0 z by simp
  show ?thesis unfolding run using n b0 z ne by (simp only: sum.case prod.case) simp
qed

lemma scaled_state_bound:
  assumes "\<bar>st\<bar> \<le> (1::real)"
  shows "- 3.5 \<le> st * 3.5 \<and> st * 3.5 \<le> 3.5"
  using assms by (simp only: abs_le_iff) simp

text \<open>
  C7. With a random source in \<open>[0, 1)\<close>, the integrator state never exceeds 1 in absolute
  value, every sample of a generated buffer is 3.5 times such a state, and so every sample
  lies in \<open>[-3.5, 3.5]\<close>.
\<close>

theorem brown_noise_bounded:
  assumes "unit_random s" and "createBrownNoiseBuffer s = Inr (buf, s')"
  shows "(\<forall>n. \<bar>integrator_state (white_noise s) n\<bar> \<le> 1)
       \<and> (\<forall>i<length buf. buf ! i = integrator_state (white_noise s) (Suc i) * 3.5)
       \<and> (\<forall>x\<in>set buf. - 3.5 \<le> x \<and> x \<le> 3.5)"
proof -
  have w: "\<forall>n. \<bar>white_noise s n\<bar> \<le> 1"
  proof
    fix n
    have "- 1 \<le> white_noise s n" "white_noise s n < 1"
      using white_noise_range [OF assms(1), of n] by simp_all
    then show "\<bar>white_noise s n\<bar> \<le> 1" by (simp only: abs_le_iff) simp
  qed
  have st: "\<bar>integrator_state (white_noise s) n\<bar> \<le> 1" for n
    by (rule integrator_state_bounded [OF w])
  obtain c where c: "ctx s = Some c" "1 \<le> \<lfloor>sampleRate c * 0.05\<rfloor>"
    using createBrownNoiseBuffer_InrD [OF assms(2)] by blast
  obtain buf0 where r: "createBrownNoiseBuffer s
        = Inr (buf0, s\<lparr>draws := draws s + nat \<lfloor>sampleRate c * 0.05\<rfloor>\<rparr>)"
    and p: "\<forall>i<length buf0. buf0 ! i = integrator_state (white_noise s) (Suc i) * 3.5"
    using createBrownNoiseBuffer_run [OF c] by blast
  have eq: "buf0 = buf" using r assms(2) by simp
  have smp: "\<forall>i<length buf. buf ! i = integrator_state (white_noise s) (Suc i) * 3.5"
    using p unfolding eq .
  have "\<forall>i<length buf. - 3.5 \<le> buf ! i \<and> buf ! i \<le> 3.5"
  proof (intro allI impI)
    fix i
    assume "i < length buf"
    then have "buf ! i = integrator_state (white_noise s) (Suc i) * 3.5"
      using smp by simp
    then show "- 3.5 \<le> buf ! i \<and> buf ! i \<le> 3.5"
      using scaled_state_bound [OF st [of "Suc i"]] by simp
  qed
  then have "\<forall>x\<in>set buf. - 3.5 \<le> x \<and> x \<le> 3.5"
    by (simp only: all_set_conv_all_nth)
  moreover have "\<forall>n. \<bar>integrator_state (white_noise s) n\<bar> \<le> 1"
    using st by simp
  ultimately show ?thesis using smp by simp
qed

theorem brown_noise_bounded_witness:
  "unit_random studio
   \<and> (case createBrownNoiseBuffer studio of
        Inl e \<Rightarrow> False
      | Inr (buf, s') \<Rightarrow> list_all (\<lambda>x. - 3.5 \<le> x \<and> x \<le> 3.5) buf \<and> length buf = 2205)"
proof -
  have len: "1 \<le> \<lfloor>sampleRate \<lparr>currentTime = 2, sampleRate = 44100, state = Running\<rparr> * 0.05\<rfloor>"
    by simp
  obtain buf s' where run: "createBrownNoiseBuffer studio = Inr (buf, s')"
    and n: "length buf = 2205"
    using createBrownNoiseBuffer_run [OF studio_ctx len] by auto
  have "\<forall>x\<in>set buf. - 3.5 \<le> x \<and> x \<le> 3.5"
    using brown_noise_bounded [OF unit_random_studio run] by blast
  then show ?thesis using run n unit_random_studio by (simp add: list_all_iff)
qed

section \<open>The voices of a key press\<close>

lemma rand_eq:
  "rand lo hi s = (lo + random_src s (draws s) * (hi - lo), s\<lparr>draws := Suc (draws s)\<rparr>)"
  by (simp add: rand_def Math_random_def)

lemma make_modes_eq:
  "make_modes rows s
     = (modes_at rows (random_src s) (draws s), s\<lparr>draws := draws s + length rows\<rparr>)"
proof (induction rows arbitrary: s)
  case Nil
  show ?case by simp
next
  case (Cons row rows)
  obtain base lo hi q g where row: "row = (base, lo, hi, q, g)"
    by (cases row) auto
  show ?case
    unfolding row by (simp add: rand_eq Cons.IH)
qed

lemma build_stages_eq:
  "build_stages ms s
     = (stages_at ms (random_src s) (draws s), s\<lparr>draws := draws s + length ms\<rparr>)"
proof (induction ms arbitrary: s)
  case Nil
  show ?case by simp
next
  case (Cons m ms)
  show ?case by (simp add: rand_eq Cons.IH)
qed

lemma length_modes_at: "length (modes_at rows r k) = length rows"
  by (induction rows r k rule: modes_at.induct) simp_all

lemma length_stages_at: "length (stages_at ms r k) = length ms"
  by (induction ms r k rule: stages_at.induct) simp_all

lemma triggerModalImpact_eq:
  assumes "ctx s = Some c"
  shows "triggerModalImpact cfg startTime config s
    = Inr (s\<lparr>draws := draws s + length (modes config),
             voices := voices s @
               [\<lparr>exciter_buffer = brownNoiseBuffer s,
                 exciter_start = startTime,
                 exciter_stop = startTime + duration config + 0.15,
                 exciterGain =
                   [SetValueAtTime 0.001 startTime,
                    LinearRampToValueAtTime 1.0 (startTime + 0.0001),
                    ExponentialRampToValueAtTime 0.001 (startTime + duration config)],
                 impactGain = masterGain config * keyPressVolume cfg,
                 stages = stages_at (modes config) (random_src s) (draws s),
                 event = config\<rparr>]\<rparr>)"
  using assms by (simp add: triggerModalImpact_def build_stages_eq)

lemma table_lengths:
  "length click_modes = 3" "length impact_modes = 7" "length upstroke_modes = 3"
  by (simp_all add: click_modes_def impact_modes_def upstroke_modes_def)

lemma playModalKeypress_eq:
  assumes "ctx s = Some c" and "brownNoiseBuffer s = Some b"
  shows "playModalKeypress cfg s
    = Inr (s\<lparr>draws := draws s + 26,
             voices := voices s @
               [voice_at cfg s (currentTime c) 0.002 0.4 click_modes (draws s),
                voice_at cfg s (currentTime c + 0.0015) 0.004 0.8 impact_modes (draws s + 6),
                voice_at cfg s (currentTime c + 0.055) 0.0015 0.25 upstroke_modes
                  (draws s + 20)]\<rparr>)"
  using assms
  by (simp add: playModalKeypress_def make_modes_eq triggerModalImpact_eq voice_at_def
        table_lengths length_modes_at Let_def add.assoc)

lemma playModalKeypress_guard:
  assumes "ctx s = None \<or> brownNoiseBuffer s = None"
  shows "playModalKeypress cfg s = Inr s"
  using assms by (auto simp: playModalKeypress_def split: option.splits)


lemma voice_at_fields:
  "exciter_start (voice_at cfg s st dur mg rows k) = st"
  "exciter_stop (voice_at cfg s st dur mg rows k) = st + dur + 0.15"
  "duration (event (voice_at cfg s st dur mg rows k)) = dur"
  "masterGain (event (voice_at cfg s st dur mg rows k)) = mg"
  "impactGain (voice_at cfg s st dur mg rows k) = mg * keyPressVolume cfg"
  "exciter_buffer (voice_at cfg s st dur mg rows k) = brownNoiseBuffer s"
  "modes (event (voice_at cfg s st dur mg rows k)) = modes_at rows (random_src s) k"
  "stages (voice_at cfg s st dur mg rows k)
     = stages_at (modes_at rows (random_src s) k) (random_src s) (k + length rows)"
  by (simp_all add: voice_at_def)

text \<open>
  C1. A synthetic key press at context time \<open>T\<close> builds exactly three voices. They start at
  \<open>T\<close>, \<open>T + 0.0015\<close> and \<open>T + 0.055\<close>, come from descriptors with durations 0.002, 0.004
  and 0.0015 and master gains 0.4, 0.8 and 0.25 (each gain node carries the master gain
  times the configured key press volume), and each exciter stops at its start plus its
  duration plus 0.15, which is not before its start plus its duration.
\<close>

theorem playModalKeypress_three_voices:
  assumes "ctx s = Some c" and "brownNoiseBuffer s = Some b"
  shows "\<exists>v1 v2 v3 s'.
      playModalKeypress cfg s = Inr s' \<and> voices s' = voices s @ [v1, v2, v3]
    \<and> exciter_start v1 = currentTime c
    \<and> exciter_start v2 = currentTime c + 0.0015
    \<and> exciter_start v3 = currentTime c + 0.055
    \<and> duration (event v1) = 0.002 \<and> duration (event v2) = 0.004
    \<and> duration (event v3) = 0.0015
    \<and> masterGain (event v1) = 0.4 \<and> masterGain (event v2) = 0.8
    \<and> masterGain (event v3) = 0.25
    \<and> impactGain v1 = 0.4 * keyPressVolume cfg
    \<and> impactGain v2 = 0.8 * keyPressVolume cfg
    \<and> impactGain v3 = 0.25 * keyPressVolume cfg
    \<and> exciter_stop v1 = exciter_start v1 + duration (event v1) + 0.15
    \<and> exciter_stop v2 = exciter_start v2 + duration (event v2) + 0.15
    \<and> exciter_stop v3 = exciter_start v3 + duration (event v3) + 0.15
    \<and> exciter_start v1 + duration (event v1) \<le> exciter_stop v1
    \<and> exciter_start v2 + duration (event v2) \<le> exciter_stop v2
    \<and> exciter_start v3 + duration (event v3) \<le> exciter_stop v3"
proof -
  let ?v1 = "voice_at cfg s (currentTime c) 0.002 0.4 click_modes (draws s)"
  let ?v2 = "voice_at cfg s (currentTime c + 0.0015) 0.004 0.8 impact_modes (draws s + 6)"
  let ?v3 = "voice_at cfg s (currentTime c + 0.055) 0.0015 0.25 upstroke_modes (draws s + 20)"
  let ?s' = "s\<lparr>draws := draws s + 26, voices := voices s @ [?v1, ?v2, ?v3]\<rparr>"
  have "playModalKeypress cfg s = Inr ?s'"
    by (rule playModalKeypress_eq [OF assms])
  moreover have "voices ?s' = voices s @ [?v1, ?v2, ?v3]"
    by simp
  ultimately show ?thesis
    by (intro exI [of _ ?v1] exI [of _ ?v2] exI [of _ ?v3] exI [of _ ?s'])
       (simp add: voice_at_fields)
qed

lemma studio_fields:
  "ctx studio = Some \<lparr>currentTime = 2, sampleRate = 44100, state = Running\<rparr>"
  "brownNoiseBuffer studio = Some [0.01, - 0.02, 0.03]"
  "voices studio = []" "enabled studio" "initialized studio"
  "keyPressBuffer studio = None" "typingLoopBuffer studio = None"
  "typingLoopTimeout studio = None" "timers studio = []" "last_handle studio = 0"
  "draws studio = 0" "one_shots studio = []"
  by (simp_all add: studio_def)

theorem playModalKeypress_three_voices_witness:
  "\<exists>s'. playModalKeypress settings studio = Inr s'
     \<and> map exciter_start (voices s') = [2, 2.0015, 2.055]
     \<and> map exciter_stop (voices s') = [2.152, 2.1555, 2.2065]
     \<and> map (\<lambda>v. duration (event v)) (voices s') = [0.002, 0.004, 0.0015]
     \<and> map (\<lambda>v. masterGain (event v)) (voices s') = [0.4, 0.8, 0.25]"
proof -
  obtain v1 v2 v3 s' where run: "playModalKeypress settings studio = Inr s'"
    and vs: "voices s' = voices studio @ [v1, v2, v3]"
    and st: "exciter_start v1 = 2" "exciter_start v2 = 2 + 0.0015" "exciter_start v3 = 2 + 0.055"
    and du: "duration (event v1) = 0.002" "duration (event v2) = 0.004"
      "duration (event v3) = 0.0015"
    and mg: "masterGain (event v1) = 0.4" "masterGain (event v2) = 0.8"
      "masterGain (event v3) = 0.25"
    and sp: "exciter_stop v1 = exciter_start v1 + duration (event v1) + 0.15"
      "exciter_stop v2 = exciter_start v2 + duration (event v2) + 0.15"
      "exciter_stop v3 = exciter_start v3 + duration (event v3) + 0.15"
    using playModalKeypress_three_voices [OF studio_fields(1,2), of settings] by auto
  have "voices s' = [v1, v2, v3]" using vs by (simp add: studio_fields)
  then show ?thesis using run st du mg sp by simp
qed

lemma stage_bound:
  assumes u: "0 \<le> u" "u < 1" and u': "0 \<le> u'" "u' < 1"
    and base: "0 \<le> base" and g: "0 \<le> g" and tol: "0 \<le> tol"
    and lo: "lo = 1 - tol" and hi: "hi = 1 + tol"
  shows "stage_meets (base, tol, q, g)
           \<lparr>filter_frequency = base * (lo + u * (hi - lo)), filter_Q = q,
            modeGain = g * (0.85 + u' * (1.15 - 0.85))\<rparr>"
proof -
  have w: "0 \<le> u * (hi - lo)" "u * (hi - lo) \<le> hi - lo"
    using u tol lo hi by (simp_all add: mult_left_le_one_le)
  have f1: "base * (1 - tol) \<le> base * (lo + u * (hi - lo))"
    using w lo by (intro mult_left_mono base) simp
  have f2: "base * (lo + u * (hi - lo)) \<le> base * (1 + tol)"
    using w lo hi by (intro mult_left_mono base) simp
  have g1: "g * (1 - 0.15) \<le> g * (0.85 + u' * (1.15 - 0.85))"
    using u' by (intro mult_left_mono g) simp
  have g2: "g * (0.85 + u' * (1.15 - 0.85)) \<le> g * (1 + 0.15)"
    using u' by (intro mult_left_mono g) simp
  show ?thesis
    using f1 f2 g1 g2 by (simp add: stage_meets_def in_tolerance_def)
qed


lemma stages_meet:
  assumes unit: "\<forall>n. 0 \<le> r n \<and> r n < 1"
    and rows: "list_all2
       (\<lambda>(base, tol, q, g) (base', lo, hi, q', g').
          base' = base \<and> lo = 1 - tol \<and> hi = 1 + tol \<and> q' = q \<and> g' = g
          \<and> 0 \<le> base \<and> 0 \<le> tol \<and> 0 \<le> g) spec rows"
  shows "list_all2 stage_meets spec (stages_at (modes_at rows r k) r k')"
  using rows
proof (induction arbitrary: k k' rule: list_all2_induct)
  case Nil
  show ?case by simp
next
  case (Cons x xs y ys)
  obtain base tol q g where x: "x = (base, tol, q, g)"
    by (cases x) auto
  obtain base' lo hi q' g' where y: "y = (base', lo, hi, q', g')"
    by (cases y) auto
  have ok: "base' = base" "lo = 1 - tol" "hi = 1 + tol" "q' = q" "g' = g"
    "0 \<le> base" "0 \<le> tol" "0 \<le> g"
    using Cons.hyps(1) by (simp_all add: x y)
  have u: "0 \<le> r k" "r k < 1" "0 \<le> r k'" "r k' < 1"
    using unit by simp_all
  have "stage_meets (base, tol, q, g)
          \<lparr>filter_frequency = base * (lo + r k * (hi - lo)), filter_Q = q,
           modeGain = g * (0.85 + r k' * (1.15 - 0.85))\<rparr>"
    by (rule stage_bound [OF u ok(6) ok(8) ok(7) ok(2) ok(3)])
  then show ?case
    using Cons.IH [of "Suc k" "Suc k'"] by (simp add: x y ok)
qed

lemma spec_tables:
  "list_all2
       (\<lambda>(base, tol, q, g) (base', lo, hi, q', g').
          base' = base \<and> lo = 1 - tol \<and> hi = 1 + tol \<and> q' = q \<and> g' = g
          \<and> 0 \<le> base \<and> 0 \<le> tol \<and> 0 \<le> g) click_spec click_modes"
  "list_all2
       (\<lambda>(base, tol, q, g) (base', lo, hi, q', g').
          base' = base \<and> lo = 1 - tol \<and> hi = 1 + tol \<and> q' = q \<and> g' = g
          \<and> 0 \<le> base \<and> 0 \<le> tol \<and> 0 \<le> g) impact_spec impact_modes"
  "list_all2
       (\<lambda>(base, tol, q, g) (base', lo, hi, q', g').
          base' = base \<and> lo = 1 - tol \<and> hi = 1 + tol \<and> q' = q \<and> g' = g
          \<and> 0 \<le> base \<and> 0 \<le> tol \<and> 0 \<le> g) upstroke_spec upstroke_modes"
  by (simp_all add: click_spec_def click_modes_def impact_spec_def impact_modes_def
        upstroke_spec_def upstroke_modes_def)

lemma stages_follow_modes:
  "map filter_frequency (stages_at ms r k) = map freq ms"
  by (induction ms r k rule: stages_at.induct) simp_all

text \<open>
  C3. With a random source in \<open>[0, 1)\<close>, every filter of the three voices of a key press
  is centred within 3 percent of its literal base frequency, or within 5 percent for the
  bases 160, 280 and 200 Hz, keeps its literal quality factor, and its gain lies within
  15 percent of its literal base gain. Each filter is centred at the generated frequency
  of its mode.
\<close>

theorem mode_randomization_bounds:
  assumes "unit_random s" and "ctx s = Some c" and "brownNoiseBuffer s = Some b"
  shows "\<exists>v1 v2 v3 s'.
      playModalKeypress cfg s = Inr s' \<and> voices s' = voices s @ [v1, v2, v3]
    \<and> list_all2 stage_meets click_spec (stages v1)
    \<and> list_all2 stage_meets impact_spec (stages v2)
    \<and> list_all2 stage_meets upstroke_spec (stages v3)
    \<and> map filter_frequency (stages v1) = map freq (modes (event v1))
    \<and> map filter_frequency (stages v2) = map freq (modes (event v2))
    \<and> map filter_frequency (stages v3) = map freq (modes (event v3))"
proof -
  let ?v1 = "voice_at cfg s (currentTime c) 0.002 0.4 click_modes (draws s)"
  let ?v2 = "voice_at cfg s (currentTime c + 0.0015) 0.004 0.8 impact_modes (draws s + 6)"
  let ?v3 = "voice_at cfg s (currentTime c + 0.055) 0.0015 0.25 upstroke_modes (draws s + 20)"
  let ?s' = "s\<lparr>draws := draws s + 26, voices := voices s @ [?v1, ?v2, ?v3]\<rparr>"
  have unit: "\<forall>n. 0 \<le> random_src s n \<and> random_src s n < 1"
    using assms(1) by (simp add: unit_random_def)
  have run: "playModalKeypress cfg s = Inr ?s'"
    by (rule playModalKeypress_eq [OF assms(2,3)])
  have vs: "voices ?s' = voices s @ [?v1, ?v2, ?v3]"
    by simp
  have b1: "list_all2 stage_meets click_spec (stages ?v1)"
    unfolding voice_at_fields by (rule stages_meet [OF unit spec_tables(1)])
  have b2: "list_all2 stage_meets impact_spec (stages ?v2)"
    unfolding voice_at_fields by (rule stages_meet [OF unit spec_tables(2)])
  have b3: "list_all2 stage_meets upstroke_spec (stages ?v3)"
    unfolding voice_at_fields by (rule stages_meet [OF unit spec_tables(3)])
  have f: "map filter_frequency (stages ?v1) = map freq (modes (event ?v1))"
    "map filter_frequency (stages ?v2) = map freq (modes (event ?v2))"
    "map filter_frequency (stages ?v3) = map freq (modes (event ?v3))"
    by (simp_all only: voice_at_fields stages_follow_modes)
  show ?thesis
    using run vs b1 b2 b3 f
    by (intro exI [of _ ?v1] exI [of _ ?v2] exI [of _ ?v3] exI [of _ ?s']) (intro conjI)
qed

theorem mode_randomization_bounds_witness:
  "unit_random studio
   \<and> (\<exists>s'. playModalKeypress settings studio = Inr s'
        \<and> list_all2 stage_meets (click_spec @ impact_spec @ upstroke_spec)
             (concat (map stages (voices s'))))"
proof -
  obtain v1 v2 v3 s' where run: "playModalKeypress settings studio = Inr s'"
    and vs: "voices s' = voices studio @ [v1, v2, v3]"
    and b: "list_all2 stage_meets click_spec (stages v1)"
      "list_all2 stage_meets impact_spec (stages v2)"
      "list_all2 stage_meets upstroke_spec (stages v3)"
    using mode_randomization_bounds [OF unit_random_studio studio_fields(1,2), of settings]
    by blast
  have "concat (map stages (voices s')) = stages v1 @ stages v2 @ stages v3"
    using vs by (simp add: studio_fields)
  then have "list_all2 stage_meets (click_spec @ impact_spec @ upstroke_spec)
      (concat (map stages (voices s')))"
    using b by (simp add: list_all2_appendI)
  then show ?thesis using run unit_random_studio by blast
qed

section \<open>The typing loop scheduler\<close>

lemma playModalKeypress_returns:
  "\<exists>d vs. playModalKeypress cfg s = Inr (s\<lparr>draws := draws s + d, voices := voices s @ vs\<rparr>)"
proof (cases "ctx s = None \<or> brownNoiseBuffer s = None")
  case True
  then have "playModalKeypress cfg s = Inr (s\<lparr>draws := draws s + 0, voices := voices s @ []\<rparr>)"
    by (simp add: playModalKeypress_guard)
  then show ?thesis by blast
next
  case False
  then obtain c b where "ctx s = Some c" "brownNoiseBuffer s = Some b"
    by auto
  then show ?thesis
    using playModalKeypress_eq [of s c b cfg] by blast
qed

lemma scheduleNextKey_disabled:
  assumes "\<not> enabled s"
  shows "scheduleNextKey cfg s = Inr (s\<lparr>typingLoopTimeout := None\<rparr>)"
  using assms by (simp add: scheduleNextKey_def)

lemma scheduleNextKey_enabled:
  assumes "enabled s"
  shows "\<exists>d vs. scheduleNextKey cfg s
    = Inr (s\<lparr>draws := Suc (draws s + d), voices := voices s @ vs,
             timers := timers s @ [(Suc (last_handle s), 100 + random_src s (draws s + d) * 150)],
             last_handle := Suc (last_handle s),
             typingLoopTimeout := Some (Suc (last_handle s))\<rparr>)"
proof -
  obtain d vs where
    "playModalKeypress cfg s = Inr (s\<lparr>draws := draws s + d, voices := voices s @ vs\<rparr>)"
    using playModalKeypress_returns by blast
  then have "scheduleNextKey cfg s
    = Inr (s\<lparr>draws := Suc (draws s + d), voices := voices s @ vs,
             timers := timers s @ [(Suc (last_handle s), 100 + random_src s (draws s + d) * 150)],
             last_handle := Suc (last_handle s),
             typingLoopTimeout := Some (Suc (last_handle s))\<rparr>)"
    using assms by (simp add: scheduleNextKey_def Math_random_def setTimeout_def Let_def)
  then show ?thesis by blast
qed


lemma fire_pending:
  assumes "h \<in> set (map fst (timers s))"
  shows "fire cfg h s
    = scheduleNextKey cfg (s\<lparr>timers := filter (\<lambda>p. fst p \<noteq> h) (timers s)\<rparr>)"
  using assms by (simp add: fire_def)

lemma fire_not_pending:
  assumes "h \<notin> set (map fst (timers s))"
  shows "fire cfg h s = Inr s"
  using assms by (simp add: fire_def)

lemma sole_timer_removed:
  assumes "map fst ts = [h]"
  shows "filter (\<lambda>p. fst p \<noteq> h) ts = []"
  using assms by (cases ts) auto

lemma loop_inv_stopped:
  assumes "loop_inv s" and "typingLoopTimeout s = None"
  shows "timers s = []"
  using assms by (simp add: loop_inv_def)

lemma loop_inv_running:
  assumes "loop_inv s" and "typingLoopTimeout s = Some h"
  shows "map fst (timers s) = [h] \<and> h \<noteq> 0"
  using assms by (auto simp: loop_inv_def)

lemma start_inv:
  assumes "loop_inv s" and "typingLoopTimeout s = None"
  shows "loop_inv (state_after (startTypingLoop cfg s))"
proof -
  have ts: "timers s = []" by (rule loop_inv_stopped [OF assms])
  show ?thesis
    using assms ts
    by (auto simp: startTypingLoop_def startSyntheticTypingLoop_def setTimeout_def Let_def
          state_after_def loop_inv_def split: option.splits)
qed

lemma stopTypingLoop_eq:
  "stopTypingLoop s
   = Inr ((case typingLoopSource s of
             None \<Rightarrow> s
           | Some n \<Rightarrow>
               (if play n = Unstarted then s
                else s\<lparr>released := released s @ [n\<lparr>play := Stopped\<rparr>]\<rparr>)
               \<lparr>typingLoopSource := None\<rparr>)
          \<lparr>timers :=
             (case typingLoopTimeout s of
                None \<Rightarrow> timers s
              | Some h \<Rightarrow> if h = 0 then timers s else filter (\<lambda>p. fst p \<noteq> h) (timers s)),
           typingLoopTimeout :=
             (case typingLoopTimeout s of
                None \<Rightarrow> None
              | Some h \<Rightarrow> if h = 0 then Some 0 else None)\<rparr>)"
  by (cases "typingLoopSource s"; cases "typingLoopTimeout s")
     (simp_all add: stopTypingLoop_def stop_and_disconnect_def clearTimeout_def Let_def)

lemma stop_clears:
  assumes "loop_inv s"
  shows "timers (state_after (stopTypingLoop s)) = []
       \<and> typingLoopTimeout (state_after (stopTypingLoop s)) = None"
proof (cases "typingLoopTimeout s")
  case None
  then show ?thesis
    using loop_inv_stopped [OF assms None]
    by (simp add: stopTypingLoop_eq state_after_def)
next
  case (Some h)
  have "map fst (timers s) = [h]" "h \<noteq> 0"
    using loop_inv_running [OF assms Some] by simp_all
  then show ?thesis
    using Some by (simp add: stopTypingLoop_eq state_after_def sole_timer_removed)
qed

lemma stop_inv:
  assumes "loop_inv s"
  shows "loop_inv (state_after (stopTypingLoop s))"
  using stop_clears [OF assms] by (simp add: loop_inv_def)

lemma fire_inv:
  assumes "loop_inv s"
  shows "loop_inv (state_after (fire cfg h s))"
proof (cases "h \<in> set (map fst (timers s))")
  case False
  then show ?thesis using assms by (simp add: fire_not_pending state_after_def)
next
  case True
  then obtain h' where h': "typingLoopTimeout s = Some h'"
    using assms by (cases "typingLoopTimeout s") (auto simp: loop_inv_def)
  have one: "map fst (timers s) = [h']"
    using loop_inv_running [OF assms h'] by simp
  then have "h = h'" using True by simp
  then have gone: "filter (\<lambda>p. fst p \<noteq> h) (timers s) = []"
    using one by (simp add: sole_timer_removed)
  let ?s0 = "s\<lparr>timers := []\<rparr>"
  have run: "fire cfg h s = scheduleNextKey cfg ?s0"
    using fire_pending [OF True] gone by simp
  show ?thesis
  proof (cases "enabled s")
    case False
    then show ?thesis
      unfolding run by (simp add: scheduleNextKey_disabled state_after_def loop_inv_def)
  next
    case True
    then have "enabled ?s0" by simp
    then obtain d vs where "scheduleNextKey cfg ?s0
      = Inr (?s0\<lparr>draws := Suc (draws ?s0 + d), voices := voices ?s0 @ vs,
             timers := timers ?s0 @
               [(Suc (last_handle ?s0), 100 + random_src ?s0 (draws ?s0 + d) * 150)],
             last_handle := Suc (last_handle ?s0),
             typingLoopTimeout := Some (Suc (last_handle ?s0))\<rparr>)"
      using scheduleNextKey_enabled by blast
    then show ?thesis
      unfolding run by (simp add: state_after_def loop_inv_def)
  qed
qed

lemma step_inv:
  assumes "loop_inv s" and "x = Start \<longrightarrow> typingLoopTimeout s = None"
  shows "loop_inv (step cfg x s)"
  using assms by (cases x) (simp_all add: start_inv stop_inv fire_inv)

lemma run_inv:
  assumes "loop_inv s" and "start_when_stopped cfg ops s"
  shows "loop_inv (run cfg ops s)"
  using assms
proof (induction ops arbitrary: s)
  case Nil
  then show ?case by simp
next
  case (Cons x xs)
  have "loop_inv (step cfg x s)"
    using Cons.prems by (intro step_inv) simp_all
  then show ?case
    using Cons.IH [of "step cfg x s"] Cons.prems(2) by simp
qed

lemma run_append: "run cfg (xs @ ys) s = run cfg ys (run cfg xs s)"
  by (induction xs arbitrary: s) simp_all

lemma start_when_stopped_take:
  assumes "start_when_stopped cfg ops s"
  shows "start_when_stopped cfg (take n ops) s"
  using assms
proof (induction ops arbitrary: s n)
  case Nil
  then show ?case by simp
next
  case (Cons x xs)
  then show ?case by (cases n) simp_all
qed

lemma loop_inv_length:
  assumes "loop_inv s"
  shows "length (timers s) \<le> 1"
proof -
  have "length (map fst (timers s)) \<le> 1"
    using assms by (simp add: loop_inv_def split: option.splits)
  then show ?thesis by simp
qed

lemma fires_idle:
  assumes "timers s = []"
  shows "run cfg (map Fire hs) s = s"
  using assms by (induction hs) (simp_all add: fire_not_pending state_after_def)


lemma start_voices: "voices (state_after (startTypingLoop cfg s)) = voices s"
  by (simp add: startTypingLoop_def startSyntheticTypingLoop_def setTimeout_def Let_def
        state_after_def split: option.splits)

lemma stop_voices: "voices (state_after (stopTypingLoop s)) = voices s"
  by (simp add: stopTypingLoop_eq state_after_def split: option.splits)

text \<open>
  C5 (amended). In every sequence of start, stop and firing operations in which
  \<^verbatim>\<open>startTypingLoop\<close> is called only while no handle is stored, run from a state where the
  stored handle and the timer queue agree, at most one timer is pending after every prefix
  of the sequence. A firing that finds the engine disabled builds no voice, hands out no
  handle, queues no timer and clears the stored handle.
\<close>

theorem single_pending_timer:
  assumes "loop_inv s" and "start_when_stopped cfg ops s"
    and "\<not> enabled t" and "h \<in> set (map fst (timers t))"
  shows "length (timers (run cfg (take n ops) s)) \<le> 1
       \<and> fire cfg h t
           = Inr (t\<lparr>timers := filter (\<lambda>p. fst p \<noteq> h) (timers t), typingLoopTimeout := None\<rparr>)
       \<and> voices (state_after (fire cfg h t)) = voices t
       \<and> last_handle (state_after (fire cfg h t)) = last_handle t
       \<and> length (timers (state_after (fire cfg h t))) \<le> length (timers t)"
proof -
  have "loop_inv (run cfg (take n ops) s)"
    by (rule run_inv [OF assms(1) start_when_stopped_take [OF assms(2)]])
  then have one: "length (timers (run cfg (take n ops) s)) \<le> 1"
    by (rule loop_inv_length)
  have f: "fire cfg h t
      = Inr (t\<lparr>timers := filter (\<lambda>p. fst p \<noteq> h) (timers t), typingLoopTimeout := None\<rparr>)"
    using assms(3) by (simp add: fire_pending [OF assms(4)] scheduleNextKey_disabled)
  show ?thesis
    using one by (simp add: f state_after_def)
qed

text \<open>
  C5 as stated fails for two calls of \<^verbatim>\<open>startTypingLoop\<close> in a row: the second call
  overwrites the stored handle while the first timer stays in the queue, so two timers
  are pending.
\<close>

theorem double_start_two_timers:
  "timers (run settings [Start, Start] studio) = [(1, 500), (2, 500)]
   \<and> length (timers (run settings [Start, Start] studio)) = 2"
  by (simp add: startTypingLoop_def startSyntheticTypingLoop_def setTimeout_def Let_def
        state_after_def studio_def)

text \<open>
  C4 (amended). In every sequence of operations in which \<^verbatim>\<open>startTypingLoop\<close> is called
  only while no handle is stored, a call of \<^verbatim>\<open>stopTypingLoop\<close> leaves no timer pending,
  so no firing can follow it: any firings attempted afterwards leave the state as the
  stop left it, and no voice is built. A start followed at once by a stop, from a stopped
  loop, builds no voice whatever firings are attempted afterwards.
\<close>

theorem stop_ends_firings:
  assumes "loop_inv s" and "start_when_stopped cfg ops s"
    and "loop_inv t" and "typingLoopTimeout t = None"
  shows "timers (run cfg (ops @ [Stop]) s) = []
       \<and> run cfg (ops @ Stop # map Fire hs) s = run cfg (ops @ [Stop]) s
       \<and> voices (run cfg (ops @ Stop # map Fire hs) s) = voices (run cfg ops s)
       \<and> timers (run cfg [Start, Stop] t) = []
       \<and> run cfg (Start # Stop # map Fire hs) t = run cfg [Start, Stop] t
       \<and> voices (run cfg (Start # Stop # map Fire hs) t) = voices t"
proof -
  have gen: "timers (run cfg (xs @ [Stop]) u) = []
       \<and> run cfg (xs @ Stop # map Fire hs) u = run cfg (xs @ [Stop]) u
       \<and> voices (run cfg (xs @ Stop # map Fire hs) u) = voices (run cfg xs u)"
    if "loop_inv u" and "start_when_stopped cfg xs u" for xs u
  proof -
    have inv: "loop_inv (run cfg xs u)"
      by (rule run_inv [OF that])
    have a: "timers (run cfg (xs @ [Stop]) u) = []"
      using stop_clears [OF inv] by (simp add: run_append)
    have "run cfg (xs @ Stop # map Fire hs) u = run cfg (map Fire hs) (run cfg (xs @ [Stop]) u)"
      by (simp add: run_append)
    then have b: "run cfg (xs @ Stop # map Fire hs) u = run cfg (xs @ [Stop]) u"
      using fires_idle [OF a] by simp
    have c: "voices (run cfg (xs @ [Stop]) u) = voices (run cfg xs u)"
      by (simp add: run_append stop_voices)
    show ?thesis using a b c by simp
  qed
  have st: "start_when_stopped cfg [Start] t"
    using assms(4) by simp
  have g: "timers (run cfg [Start, Stop] t) = []
       \<and> run cfg (Start # Stop # map Fire hs) t = run cfg [Start, Stop] t
       \<and> voices (run cfg (Start # Stop # map Fire hs) t) = voices (run cfg [Start] t)"
    using gen [OF assms(3) st] unfolding append.simps .
  have v0: "voices (run cfg [Start] t) = voices t"
    by (simp add: start_voices)
  have g3: "voices (run cfg (Start # Stop # map Fire hs) t) = voices t"
    by (rule trans [OF conjunct2 [OF conjunct2 [OF g]] v0])
  show ?thesis
    using gen [OF assms(1,2)] g g3 by (intro conjI) blast+
qed

text \<open>
  C4 as stated fails after two calls of \<^verbatim>\<open>startTypingLoop\<close> in a row: the stop cancels
  only the second timer, the first one fires afterwards, builds the three voices of a key
  press and queues the next timer.
\<close>

theorem firing_after_stop:
  "timers (run settings [Start, Start, Stop] studio) = [(1, 500)]
   \<and> voices (run settings [Start, Start, Stop] studio) = []
   \<and> length (voices (run settings [Start, Start, Stop, Fire 1] studio)) = 3
   \<and> timers (run settings [Start, Start, Stop, Fire 1] studio) = [(3, 175)]"
proof -
  define u where "u = studio\<lparr>last_handle := 2\<rparr>"
  have u: "ctx u = Some \<lparr>currentTime = 2, sampleRate = 44100, state = Running\<rparr>"
    "brownNoiseBuffer u = Some [0.01, - 0.02, 0.03]" "enabled u" "voices u = []"
    "timers u = []" "last_handle u = 2" "draws u = 0"
    "random_src u = (\<lambda>n. real (n mod 4) / 4)"
    by (simp_all add: u_def studio_def)
  have s3: "run settings [Start, Start, Stop] studio = u\<lparr>timers := [(1, 500)]\<rparr>"
    by (simp add: startTypingLoop_def startSyntheticTypingLoop_def setTimeout_def Let_def
          state_after_def stopTypingLoop_eq studio_def u_def)
  obtain s1 where k: "playModalKeypress settings u = Inr s1"
    and vs: "voices s1 = voices u @
       [voice_at settings u 2 0.002 0.4 click_modes (draws u),
        voice_at settings u (2 + 0.0015) 0.004 0.8 impact_modes (draws u + 6),
        voice_at settings u (2 + 0.055) 0.0015 0.25 upstroke_modes (draws u + 20)]"
    and fr: "draws s1 = draws u + 26" "timers s1 = timers u" "last_handle s1 = last_handle u"
      "random_src s1 = random_src u"
    using playModalKeypress_eq [OF u(1,2), of settings] by simp
  have "run settings [Start, Start, Stop, Fire 1] studio
      = state_after (fire settings 1 (run settings [Start, Start, Stop] studio))"
    by (simp only: run.simps step.simps)
  also have "\<dots> = state_after (scheduleNextKey settings (u\<lparr>timers := []\<rparr>))"
    unfolding s3 by (simp add: fire_def)
  also have "u\<lparr>timers := []\<rparr> = u"
    by (simp add: u_def studio_def)
  finally have r: "run settings [Start, Start, Stop, Fire 1] studio
      = state_after (scheduleNextKey settings u)" .
  have v: "length (voices (run settings [Start, Start, Stop, Fire 1] studio)) = 3"
    unfolding r
    by (simp add: scheduleNextKey_def k u(3,4) vs Math_random_def setTimeout_def Let_def
          state_after_def)
  have tm: "timers (run settings [Start, Start, Stop, Fire 1] studio) = [(3, 175)]"
    unfolding r
    by (simp add: scheduleNextKey_def k u fr Math_random_def setTimeout_def Let_def
          state_after_def)
  have a: "timers (run settings [Start, Start, Stop] studio) = [(1, 500)]"
    unfolding s3 by simp
  have b: "voices (run settings [Start, Start, Stop] studio) = []"
    unfolding s3 by (simp add: u)
  show ?thesis
    using a b v tm by (intro conjI)
qed


lemma loop_inv_studio: "loop_inv studio"
  by (simp add: loop_inv_def studio_def)

lemma paused_fields:
  "\<not> enabled paused" "timers paused = [(1, 500)]" "initialized paused"
  by (simp_all add: paused_def studio_def)

theorem single_pending_timer_witness:
  "loop_inv studio \<and> start_when_stopped settings [Start, Fire 1, Stop, Start] studio
   \<and> \<not> enabled paused \<and> 1 \<in> set (map fst (timers paused))
   \<and> length (timers (run settings (take 4 [Start, Fire 1, Stop, Start]) studio)) \<le> 1
   \<and> fire settings 1 paused = Inr (paused\<lparr>timers := [], typingLoopTimeout := None\<rparr>)"
proof -
  have d1: "start_when_stopped settings [Start, Fire 1] studio"
    by (simp add: studio_def)
  have "typingLoopTimeout (state_after (stopTypingLoop (run settings [Start, Fire 1] studio)))
      = None"
    using stop_clears [OF run_inv [OF loop_inv_studio d1]] by simp
  then have d: "start_when_stopped settings [Start, Fire 1, Stop, Start] studio"
    by (simp add: studio_fields)
  have p: "1 \<in> set (map fst (timers paused))"
    by (simp add: paused_fields)
  show ?thesis
    using single_pending_timer [OF loop_inv_studio d paused_fields(1) p, of 4]
      loop_inv_studio d p paused_fields
    by simp
qed

theorem stop_ends_firings_witness:
  "loop_inv studio \<and> start_when_stopped settings [Start, Fire 1] studio
   \<and> typingLoopTimeout studio = None
   \<and> timers (run settings ([Start, Fire 1] @ [Stop]) studio) = []
   \<and> run settings ([Start, Fire 1] @ Stop # map Fire [2, 1]) studio
       = run settings ([Start, Fire 1] @ [Stop]) studio
   \<and> voices (run settings (Start # Stop # map Fire [2, 1]) studio) = []"
proof -
  have d1: "start_when_stopped settings [Start, Fire 1] studio"
    by (simp add: studio_def)
  have v: "voices studio = []" by (rule studio_fields)
  show ?thesis
    using stop_ends_firings [OF loop_inv_studio d1 loop_inv_studio studio_fields(8),
        of "[2, 1]"] loop_inv_studio d1 studio_fields(8)
    unfolding v by blast
qed

text \<open>
  C8. Starting the synthetic loop queues one timer with a delay of 500 ms and stores its
  handle. A firing on an enabled engine queues one new timer whose delay is
  \<open>100 + 150 * u\<close> for a value \<open>u\<close> of the random source at a position not read before the
  firing; with the source in \<open>[0, 1)\<close> the delay lies in \<open>[100, 250)\<close>.
\<close>

theorem typing_loop_delays:
  assumes "enabled s" and "initialized s" and "typingLoopBuffer s = None"
    and "enabled t" and "unit_random t" and "h \<in> set (map fst (timers t))"
  shows "startTypingLoop cfg s
           = Inr (s\<lparr>timers := timers s @ [(Suc (last_handle s), 500)],
                    last_handle := Suc (last_handle s),
                    typingLoopTimeout := Some (Suc (last_handle s))\<rparr>)
       \<and> (\<exists>t' k. fire cfg h t = Inr t'
             \<and> timers t' = filter (\<lambda>p. fst p \<noteq> h) (timers t)
                  @ [(Suc (last_handle t), 100 + random_src t k * 150)]
             \<and> typingLoopTimeout t' = Some (Suc (last_handle t))
             \<and> draws t \<le> k \<and> draws t' = Suc k \<and> random_src t' = random_src t
             \<and> 100 \<le> 100 + random_src t k * 150 \<and> 100 + random_src t k * 150 < 250)"
proof -
  have a: "startTypingLoop cfg s
           = Inr (s\<lparr>timers := timers s @ [(Suc (last_handle s), 500)],
                    last_handle := Suc (last_handle s),
                    typingLoopTimeout := Some (Suc (last_handle s))\<rparr>)"
    using assms(1-3)
    by (simp add: startTypingLoop_def startSyntheticTypingLoop_def setTimeout_def Let_def)
  let ?t0 = "t\<lparr>timers := filter (\<lambda>p. fst p \<noteq> h) (timers t)\<rparr>"
  have "enabled ?t0" using assms(4) by simp
  then obtain d vs where sch: "scheduleNextKey cfg ?t0
    = Inr (?t0\<lparr>draws := Suc (draws ?t0 + d), voices := voices ?t0 @ vs,
             timers := timers ?t0 @
               [(Suc (last_handle ?t0), 100 + random_src ?t0 (draws ?t0 + d) * 150)],
             last_handle := Suc (last_handle ?t0),
             typingLoopTimeout := Some (Suc (last_handle ?t0))\<rparr>)"
    using scheduleNextKey_enabled by blast
  let ?k = "draws t + d"
  have u: "0 \<le> random_src t ?k" "random_src t ?k < 1"
    using assms(5) by (simp_all add: unit_random_def)
  have rng: "100 \<le> 100 + random_src t ?k * 150" "100 + random_src t ?k * 150 < 250"
    using u by simp_all
  have "\<exists>t'. fire cfg h t = Inr t'
             \<and> timers t' = filter (\<lambda>p. fst p \<noteq> h) (timers t)
                  @ [(Suc (last_handle t), 100 + random_src t ?k * 150)]
             \<and> typingLoopTimeout t' = Some (Suc (last_handle t))
             \<and> draws t \<le> ?k \<and> draws t' = Suc ?k \<and> random_src t' = random_src t
             \<and> 100 \<le> 100 + random_src t ?k * 150 \<and> 100 + random_src t ?k * 150 < 250"
    using rng by (simp add: fire_pending [OF assms(6)] sch)
  then show ?thesis using a by blast
qed

theorem typing_loop_delays_witness:
  "startTypingLoop settings studio
     = Inr (studio\<lparr>timers := [(1, 500)], last_handle := 1, typingLoopTimeout := Some 1\<rparr>)
   \<and> (\<exists>t' k. fire settings 1 (studio\<lparr>timers := [(1, 500)], last_handle := 1\<rparr>) = Inr t'
         \<and> timers t' = [(2, 100 + random_src studio k * 150)]
         \<and> 100 \<le> 100 + random_src studio k * 150
         \<and> 100 + random_src studio k * 150 < 250)"
proof -
  let ?t = "studio\<lparr>timers := [(1, 500)], last_handle := 1\<rparr>"
  have ur: "unit_random ?t"
    using unit_random_studio by (simp add: unit_random_def)
  have p: "1 \<in> set (map fst (timers ?t))" by simp
  have en: "enabled ?t" by (simp add: studio_fields)
  note th = typing_loop_delays [OF studio_fields(4,5,7) en ur p, of settings]
  have a: "startTypingLoop settings studio
     = Inr (studio\<lparr>timers := [(1, 500)], last_handle := 1, typingLoopTimeout := Some 1\<rparr>)"
    using conjunct1 [OF th] by (simp add: studio_fields)
  obtain t' k where f: "fire settings 1 ?t = Inr t'"
    and tm: "timers t' = filter (\<lambda>p. fst p \<noteq> 1) (timers ?t)
                  @ [(Suc (last_handle ?t), 100 + random_src ?t k * 150)]"
    and rng: "100 \<le> 100 + random_src ?t k * 150" "100 + random_src ?t k * 150 < 250"
    using conjunct2 [OF th] by blast
  have tm': "timers t' = [(2, 100 + random_src studio k * 150)]"
    using tm by simp
  have rng': "100 \<le> 100 + random_src studio k * 150" "100 + random_src studio k * 150 < 250"
    using rng by simp_all
  show ?thesis
    using a f tm' rng' by blast
qed

section \<open>Key presses and lifecycle calls\<close>

lemma playBuffer_eq:
  assumes "ctx s = Some c"
  shows "playBuffer cfg b s
    = Inr (s\<lparr>draws := Suc (draws s),
             one_shots := one_shots s @
               [\<lparr>source_buffer = b, playbackRate = 0.95 + random_src s (draws s) * 0.1,
                 pressGain = keyPressVolume cfg\<rparr>]\<rparr>)"
  using assms by (simp add: playBuffer_def Math_random_def)

text \<open>
  C6. On an enabled, initialized engine with a loaded key press sample, \<^verbatim>\<open>playKeyPress\<close>
  plays the sample through one new one-shot voice whose playback rate is \<open>0.95 + 0.1 * u\<close>
  for the next value \<open>u\<close> of the random source, so lies in \<open>[0.95, 1.05)\<close> and hence in
  \<open>[0.95, 1.10]\<close>, at the configured key press volume, and builds no synthetic voice. With
  no sample loaded the call is the synthetic key press and builds no one-shot voice.
\<close>

theorem playKeyPress_source:
  assumes "enabled s" and "initialized s" and "unit_random s"
    and "keyPressBuffer s = Some b" and "ctx s = Some c"
    and "enabled t" and "initialized t" and "keyPressBuffer t = None"
  shows "playKeyPress cfg s
           = Inr (s\<lparr>draws := Suc (draws s),
                    one_shots := one_shots s @
                      [\<lparr>source_buffer = b,
                        playbackRate = 0.95 + random_src s (draws s) * 0.1,
                        pressGain = keyPressVolume cfg\<rparr>]\<rparr>)
       \<and> voices (state_after (playKeyPress cfg s)) = voices s
       \<and> 0.95 \<le> 0.95 + random_src s (draws s) * 0.1
       \<and> 0.95 + random_src s (draws s) * 0.1 < 1.05
       \<and> 0.95 + random_src s (draws s) * 0.1 \<le> 1.10
       \<and> playKeyPress cfg t = playModalKeypress cfg t
       \<and> one_shots (state_after (playKeyPress cfg t)) = one_shots t"
proof -
  have a: "playKeyPress cfg s
           = Inr (s\<lparr>draws := Suc (draws s),
                    one_shots := one_shots s @
                      [\<lparr>source_buffer = b,
                        playbackRate = 0.95 + random_src s (draws s) * 0.1,
                        pressGain = keyPressVolume cfg\<rparr>]\<rparr>)"
    using assms(1,2,4) by (simp add: playKeyPress_def playBuffer_eq [OF assms(5)])
  have u: "0 \<le> random_src s (draws s)" "random_src s (draws s) < 1"
    using assms(3) by (simp_all add: unit_random_def)
  have r: "0.95 \<le> 0.95 + random_src s (draws s) * 0.1"
    "0.95 + random_src s (draws s) * 0.1 < 1.05"
    "0.95 + random_src s (draws s) * 0.1 \<le> 1.10"
    using u by simp_all
  have m: "playKeyPress cfg t = playModalKeypress cfg t"
    using assms(6-8) by (simp add: playKeyPress_def)
  obtain d vs where
    "playModalKeypress cfg t = Inr (t\<lparr>draws := draws t + d, voices := voices t @ vs\<rparr>)"
    using playModalKeypress_returns by blast
  then have o: "one_shots (state_after (playKeyPress cfg t)) = one_shots t"
    by (simp add: m state_after_def)
  have v: "voices (state_after (playKeyPress cfg s)) = voices s"
    by (simp add: a state_after_def)
  show ?thesis
    using a v r m o by (intro conjI)
qed

lemma sampled_fields:
  "enabled sampled" "initialized sampled" "keyPressBuffer sampled = Some [0.2, - 0.1]"
  "ctx sampled = Some \<lparr>currentTime = 2, sampleRate = 44100, state = Running\<rparr>"
  "draws sampled = 3" "random_src sampled 3 = 3 / 4" "one_shots sampled = []"
  "voices sampled = []"
  by (simp_all add: sampled_def studio_def)

lemma unit_random_sampled: "unit_random sampled"
  using unit_random_studio by (simp add: unit_random_def sampled_def)

lemma settings_fields: "keyPressVolume settings = 0.5"
  by (simp add: settings_def)

theorem playKeyPress_source_witness:
  "one_shots (state_after (playKeyPress settings sampled))
     = [\<lparr>source_buffer = [0.2, - 0.1], playbackRate = 1.025, pressGain = 0.5\<rparr>]
   \<and> voices (state_after (playKeyPress settings sampled)) = []
   \<and> playKeyPress settings studio = playModalKeypress settings studio
   \<and> one_shots (state_after (playKeyPress settings studio)) = []"
proof -
  note th = playKeyPress_source [OF sampled_fields(1,2) unit_random_sampled
      sampled_fields(3,4) studio_fields(4,5,6), of settings]
  have "one_shots (state_after (playKeyPress settings sampled))
     = [\<lparr>source_buffer = [0.2, - 0.1], playbackRate = 1.025, pressGain = 0.5\<rparr>]"
    by (simp add: conjunct1 [OF th] state_after_def sampled_fields settings_fields)
  moreover have "voices (state_after (playKeyPress settings sampled)) = voices sampled"
    using th by blast
  then have "voices (state_after (playKeyPress settings sampled)) = []"
    using sampled_fields(8) by (rule trans)
  moreover have "playKeyPress settings studio = playModalKeypress settings studio"
    using th by blast
  moreover have "one_shots (state_after (playKeyPress settings studio)) = one_shots studio"
    using th by blast
  then have "one_shots (state_after (playKeyPress settings studio)) = []"
    using studio_fields(12) by (rule trans)
  ultimately show ?thesis by (intro conjI)
qed

text \<open>
  C10. While the engine is disabled or not initialized, \<^verbatim>\<open>playKeyPress\<close> and
  \<^verbatim>\<open>startTypingLoop\<close> return with the state unchanged: no voice, no audio node, no timer,
  no random value drawn.
\<close>

theorem disabled_calls_return:
  assumes "\<not> enabled s \<or> \<not> initialized s"
  shows "playKeyPress cfg s = Inr s \<and> startTypingLoop cfg s = Inr s"
  using assms by (auto simp: playKeyPress_def startTypingLoop_def)

theorem disabled_calls_return_witness:
  "\<not> enabled paused
   \<and> playKeyPress settings paused = Inr paused
   \<and> startTypingLoop settings paused = Inr paused"
  using disabled_calls_return [of paused settings] paused_fields(1) by simp

text \<open>
  C9. From every state \<^verbatim>\<open>stopTypingLoop\<close> returns, also when the source throws on
  \<^verbatim>\<open>stop\<close>; a second call returns too and changes nothing. \<^verbatim>\<open>dispose\<close> returns after a
  stop, a second time after itself, and from every state, whatever voices were built, and
  leaves the voices as they are.
\<close>

theorem redundant_lifecycle_calls:
  "\<exists>s1 s2 s3 s4.
      stopTypingLoop s = Inr s1 \<and> stopTypingLoop s1 = Inr s1
    \<and> typingLoopSource s1 = None
    \<and> dispose s1 = Inr s2 \<and> dispose s2 = Inr s3
    \<and> dispose s = Inr s4
    \<and> voices s4 = voices s \<and> one_shots s4 = one_shots s"
proof -
  obtain s1 where s1: "stopTypingLoop s = Inr s1"
    by (simp add: stopTypingLoop_eq)
  have src: "typingLoopSource s1 = None"
    using s1 by (auto simp: stopTypingLoop_eq split: option.splits)
  have tmo: "typingLoopTimeout s1 = None \<or> typingLoopTimeout s1 = Some 0"
    using s1 by (auto simp: stopTypingLoop_eq split: option.splits if_splits)
  have again: "stopTypingLoop s1 = Inr s1"
    using src tmo by (auto simp: stopTypingLoop_eq)
  have d: "\<exists>y. dispose x = Inr y \<and> voices y = voices x \<and> one_shots y = one_shots x" for x
    by (auto simp: dispose_def stopTypingLoop_eq split: option.splits)
  obtain s2 where s2: "dispose s1 = Inr s2" using d by blast
  obtain s3 where s3: "dispose s2 = Inr s3" using d by blast
  obtain s4 where s4: "dispose s = Inr s4" "voices s4 = voices s" "one_shots s4 = one_shots s"
    using d by blast
  show ?thesis
    using s1 again src s2 s3 s4 by blast
qed

theorem redundant_lifecycle_calls_witness:
  "stop_and_disconnect
      \<lparr>loop_buffer = [0.5], loop_flag = True, loopGain = [], play = Unstarted\<rparr> stale
     = Inl (InvalidStateError, stale)
   \<and> stopTypingLoop stale = Inr studio
   \<and> stopTypingLoop studio = Inr studio
   \<and> (\<exists>s2 s3. dispose studio = Inr s2 \<and> dispose s2 = Inr s3)"
proof -
  have a: "stop_and_disconnect
      \<lparr>loop_buffer = [0.5], loop_flag = True, loopGain = [], play = Unstarted\<rparr> stale
     = Inl (InvalidStateError, stale)"
    by (simp add: stop_and_disconnect_def)
  have b: "stopTypingLoop stale = Inr studio"
    by (simp add: stopTypingLoop_eq stale_def studio_def)
  obtain s1 s2 s3 where "stopTypingLoop stale = Inr s1" "stopTypingLoop s1 = Inr s1"
    "dispose s1 = Inr s2" "dispose s2 = Inr s3"
    using redundant_lifecycle_calls [of stale] by blast
  then have "stopTypingLoop studio = Inr studio"
    "\<exists>s2 s3. dispose studio = Inr s2 \<and> dispose s2 = Inr s3"
    using b by auto
  then show ?thesis using a b by blast
qed

end
